theory Spec2Isabelle
  imports Main "HOL-Library.AList" "HOL-Library.Multiset"
begin

section \<open>JavaScript values\<close>

text \<open>
  The server (\<^verbatim>\<open>backend/server.js\<close>) handles values produced by \<^verbatim>\<open>JSON.parse\<close>: request
  bodies parsed by \<^verbatim>\<open>express.json()\<close> and the content of the file \<^verbatim>\<open>logs.json\<close>.
  Numbers are represented by integers (the only number the code distinguishes is zero, which is
  falsy); an object is the association list of its own properties, looked up with \<open>map_of\<close>.
  The enumeration order of properties is not observed by any function below.
\<close>

datatype json =
    JNull
  | JBool bool
  | JNum int
  | JStr string
  | JArr "json list"
  | JObj "(string \<times> json) list"

text \<open>Exceptions that the modelled code can raise; each one is a value.\<close>

datatype js_error = TypeError | RangeError | SyntaxError | IOError

text \<open>
  The result of a property read \<^verbatim>\<open>v[k]\<close> is \<open>None\<close> for \<^verbatim>\<open>undefined\<close>. Reading a property
  of \<^verbatim>\<open>null\<close> throws; strings, numbers, booleans and arrays have none of the property names
  the server reads (\<^verbatim>\<open>level\<close>, \<^verbatim>\<open>message\<close>, ..., \<^verbatim>\<open>logs\<close>).
\<close>

fun field_of :: "json \<Rightarrow> string \<Rightarrow> json option" where
  "field_of (JObj kvs) k = map_of kvs k"
| "field_of _ k = None"

definition get_prop :: "json \<Rightarrow> string \<Rightarrow> js_error + json option" where
  "get_prop v k = (if v = JNull then Inl TypeError else Inr (field_of v k))"

text \<open>JavaScript truthiness, as tested by \<^verbatim>\<open>!v\<close>, \<^verbatim>\<open>v || d\<close> and \<^verbatim>\<open>if (v)\<close>.\<close>

fun truthy :: "json option \<Rightarrow> bool" where
  "truthy None = False"
| "truthy (Some JNull) = False"
| "truthy (Some (JBool b)) = b"
| "truthy (Some (JNum n)) = (n \<noteq> 0)"
| "truthy (Some (JStr s)) = (s \<noteq> [])"
| "truthy (Some (JArr xs)) = True"
| "truthy (Some (JObj kvs)) = True"

text \<open>\<^verbatim>\<open>typeof v === 'object'\<close>: true of \<^verbatim>\<open>null\<close>, of arrays and of objects.\<close>

fun typeof_object :: "json option \<Rightarrow> bool" where
  "typeof_object (Some JNull) = True"
| "typeof_object (Some (JArr xs)) = True"
| "typeof_object (Some (JObj kvs)) = True"
| "typeof_object _ = False"

text \<open>
  \<^verbatim>\<open>new Date(v).getTime()\<close> is a parameter \<open>D\<close> of the model: the time value in milliseconds,
  or \<open>None\<close> for \<^verbatim>\<open>NaN\<close> (an invalid date). \<^verbatim>\<open>new Date(undefined)\<close> is always invalid.
\<close>

type_synonym date_parser = "json \<Rightarrow> int option"

definition newDate :: "date_parser \<Rightarrow> json option \<Rightarrow> int option" where
  "newDate D v = (case v of None \<Rightarrow> None | Some j \<Rightarrow> D j)"

section \<open>Record validator\<close>

definition required :: "string list" where
  "required = [''level'', ''message'', ''resourceId'', ''timestamp'', ''traceId'', ''spanId'',
     ''commit'', ''metadata'']"

definition validLevels :: "string list" where
  "validLevels = [''error'', ''warn'', ''info'', ''debug'']"

text \<open>\<^verbatim>\<open>validLevels.includes(v)\<close>: only a string can be equal to an element of the list.\<close>

fun includes_level :: "json option \<Rightarrow> bool" where
  "includes_level (Some (JStr s)) = (s \<in> set validLevels)"
| "includes_level _ = False"

datatype reason = MissingFields "string list" | InvalidLevel | InvalidTimestamp | InvalidMetadata

datatype validation = Valid | Invalid reason

fun join :: "string \<Rightarrow> string list \<Rightarrow> string" where
  "join sep [] = []"
| "join sep [x] = x"
| "join sep (x # y # ys) = x @ sep @ join sep (y # ys)"

fun error_message :: "reason \<Rightarrow> string" where
  "error_message (MissingFields missing) = ''Missing required fields: '' @ join '', '' missing"
| "error_message InvalidLevel = ''Invalid level. Must be one of: '' @ join '', '' validLevels"
| "error_message InvalidTimestamp = ''Invalid timestamp format. Must be ISO 8601''"
| "error_message InvalidMetadata = ''Metadata must be a JSON object''"

definition validateLogEntry :: "date_parser \<Rightarrow> json \<Rightarrow> js_error + validation" where
  "validateLogEntry D logEntry =
     (if logEntry = JNull then Inl TypeError
      else Inr
        (let missing = filter (\<lambda>field. \<not> truthy (field_of logEntry field)) required in
         if length missing > 0 then Invalid (MissingFields missing)
         else if \<not> includes_level (field_of logEntry ''level'') then Invalid InvalidLevel
         else if newDate D (field_of logEntry ''timestamp'') = None then Invalid InvalidTimestamp
         else if \<not> typeof_object (field_of logEntry ''metadata'')
                 \<or> field_of logEntry ''metadata'' = Some JNull
           then Invalid InvalidMetadata
         else Valid))"

section \<open>Durable store\<close>

text \<open>
  The file \<^verbatim>\<open>logs.json\<close> is represented by what reading and parsing it gives: the file may
  be absent, unreadable, hold text that \<^verbatim>\<open>JSON.parse\<close> rejects, or hold the text of a value.
\<close>

datatype db_file = FileMissing | FileUnreadable | FileCorrupt | FileJson json

text \<open>The body of the \<^verbatim>\<open>try\<close> block of \<^verbatim>\<open>readLogs\<close>: \<^verbatim>\<open>JSON.parse(data).logs || []\<close>.\<close>

definition readLogs_try :: "db_file \<Rightarrow> js_error + json" where
  "readLogs_try f =
     (case f of
        FileMissing \<Rightarrow> Inl IOError
      | FileUnreadable \<Rightarrow> Inl IOError
      | FileCorrupt \<Rightarrow> Inl SyntaxError
      | FileJson v \<Rightarrow>
          (case get_prop v ''logs'' of
             Inl e \<Rightarrow> Inl e
           | Inr None \<Rightarrow> Inr (JArr [])
           | Inr (Some l) \<Rightarrow> Inr (if truthy (Some l) then l else JArr [])))"

definition readLogs :: "db_file \<Rightarrow> json" where
  "readLogs f = (case readLogs_try f of Inl e \<Rightarrow> JArr [] | Inr logs \<Rightarrow> logs)"

text \<open>
  Whether \<^verbatim>\<open>fs.writeFile\<close> succeeds is decided by the environment. A failed write leaves the
  file in a state that the environment chooses as well.
\<close>

datatype write_outcome = WriteOk | WriteFails db_file

definition writeLogs :: "write_outcome \<Rightarrow> json \<Rightarrow> db_file \<times> js_error option" where
  "writeLogs w logs =
     (case w of
        WriteOk \<Rightarrow> (FileJson (JObj [(''logs'', logs)]), None)
      | WriteFails f' \<Rightarrow> (f', Some IOError))"

definition initializeDatabase :: "write_outcome \<Rightarrow> db_file \<Rightarrow> db_file \<times> js_error option" where
  "initializeDatabase w f = (if f = FileMissing then writeLogs w (JArr []) else (f, None))"

section \<open>Ingestion coordinator\<close>

text \<open>\<^verbatim>\<open>n.toString()\<close> of a natural number: its decimal digits.\<close>

definition digit :: "nat \<Rightarrow> char" where
  "digit d = ''0123456789'' ! d"

fun toString :: "nat \<Rightarrow> string" where
  "toString n = (if n < 10 then [digit n] else toString (n div 10) @ [digit (n mod 10)])"

declare toString.simps [simp del]

text \<open>The own enumerable properties copied by the spread \<^verbatim>\<open>...v\<close> in an object literal.\<close>

fun own_props :: "json \<Rightarrow> (string \<times> json) list" where
  "own_props (JObj kvs) = kvs"
| "own_props (JArr xs) = zip (map toString [0..<length xs]) xs"
| "own_props (JStr s) = zip (map toString [0..<length s]) (map (\<lambda>c. JStr [c]) s)"
| "own_props _ = []"

text \<open>
  The object literal \<^verbatim>\<open>{ id: ..., ...logEntry, timestamp: ..., ingestedAt: ... }\<close>: a later
  property of the same name replaces the value of an earlier one, so an \<^verbatim>\<open>id\<close> of the request
  body replaces the generated one.
\<close>

definition assign :: "(string \<times> json) list \<Rightarrow> (string \<times> json) list \<Rightarrow> (string \<times> json) list" where
  "assign src dst = fold (\<lambda>(k, v). AList.update k v) src dst"

definition make_newLog :: "string \<Rightarrow> json \<Rightarrow> string \<Rightarrow> string \<Rightarrow> json" where
  "make_newLog ident logEntry ts ingestedAt =
     JObj (AList.update ''ingestedAt'' (JStr ingestedAt)
            (AList.update ''timestamp'' (JStr ts)
              (assign (own_props logEntry) [(''id'', JStr ident)])))"

text \<open>\<^verbatim>\<open>d.toISOString()\<close> throws a \<^verbatim>\<open>RangeError\<close> on an invalid date; on a valid one it is
  the parameter \<open>ISO\<close> of the model.\<close>

definition toISOString :: "(int \<Rightarrow> string) \<Rightarrow> int option \<Rightarrow> js_error + string" where
  "toISOString ISO d = (case d of None \<Rightarrow> Inl RangeError | Some t \<Rightarrow> Inr (ISO t))"

text \<open>\<^verbatim>\<open>logs.unshift(newLog)\<close>: only an array has the method.\<close>

fun unshift :: "json \<Rightarrow> json \<Rightarrow> js_error + json list" where
  "unshift x (JArr xs) = Inr (x # xs)"
| "unshift x _ = Inl TypeError"

text \<open>What the environment supplies to one \<^verbatim>\<open>POST /logs\<close> request: the two clock readings
  (\<^verbatim>\<open>Date.now()\<close> for the id, \<^verbatim>\<open>new Date()\<close> for \<^verbatim>\<open>ingestedAt\<close>) and the fate of the write.\<close>

record env =
  date_now :: nat
  new_date :: int
  write_result :: write_outcome

text \<open>The event given to \<^verbatim>\<open>io.emit('newLog', ...)\<close>.\<close>

record event =
  etype :: string
  elog :: json
  totalLogs :: nat

text \<open>
  The state of the server: the file, the connected sockets, and every broadcast made so far
  with the sockets that were connected when it was made (\<^verbatim>\<open>io.emit\<close> sends to all of them).
\<close>

record server =
  db :: db_file
  sockets :: "string list"
  emitted :: "(event \<times> string list) list"

text \<open>The answers of the two routes, by their status: \<open>201\<close> with the stored record, \<open>400\<close> with
  the error message, \<open>500\<close>, and \<open>200\<close> with the records found.\<close>

datatype response = Status201 json | Status400 string | Status500 | Status200 "json list"

text \<open>
  The handler of \<^verbatim>\<open>POST /logs\<close>. Every exception raised in its \<^verbatim>\<open>try\<close> block is answered \<open>500\<close>.
  One request is handled from its first to its last statement: two handlers that interleave at
  an \<^verbatim>\<open>await\<close> are not modelled.
\<close>

definition ingest ::
  "date_parser \<Rightarrow> (int \<Rightarrow> string) \<Rightarrow> env \<Rightarrow> json \<Rightarrow> server \<Rightarrow> response \<times> server" where
  "ingest D ISO e logEntry s =
     (case validateLogEntry D logEntry of
        Inl err \<Rightarrow> (Status500, s)
      | Inr (Invalid r) \<Rightarrow> (Status400 (error_message r), s)
      | Inr Valid \<Rightarrow>
          (let logs = readLogs (db s) in
           case toISOString ISO (newDate D (field_of logEntry ''timestamp'')) of
             Inl err \<Rightarrow> (Status500, s)
           | Inr ts \<Rightarrow>
               (let newLog = make_newLog (toString (date_now e)) logEntry ts (ISO (new_date e)) in
                case unshift newLog logs of
                  Inl err \<Rightarrow> (Status500, s)
                | Inr logs1 \<Rightarrow>
                    (let logs2 = (if length logs1 > 1000 then take 1000 logs1 else logs1) in
                     case writeLogs (write_result e) (JArr logs2) of
                       (f', Some err) \<Rightarrow> (Status500, s\<lparr>db := f'\<rparr>)
                     | (f', None) \<Rightarrow>
                         (Status201 newLog,
                          s\<lparr>db := f',
                            emitted := emitted s @
                              [(\<lparr>etype = ''logIngested'', elog = newLog,
                                 totalLogs = length logs2\<rparr>, sockets s)]\<rparr>)))))"

section \<open>Query engine\<close>

text \<open>The query string of \<^verbatim>\<open>GET /logs\<close>: each parameter is absent or a string.\<close>

record query_params =
  level :: "string option"
  message :: "string option"
  resourceId :: "string option"
  timestamp_start :: "string option"
  timestamp_end :: "string option"
  traceId :: "string option"
  spanId :: "string option"
  commit :: "string option"

definition bind_e :: "js_error + 'a \<Rightarrow> ('a \<Rightarrow> js_error + 'b) \<Rightarrow> js_error + 'b" where
  "bind_e m f = (case m of Inl e \<Rightarrow> Inl e | Inr x \<Rightarrow> f x)"

text \<open>\<^verbatim>\<open>[...logs]\<close>: an array is copied, a string is iterated character by character, any
  other value that \<^verbatim>\<open>readLogs\<close> can return is not iterable.\<close>

fun spread_array :: "json \<Rightarrow> js_error + json list" where
  "spread_array (JArr xs) = Inr xs"
| "spread_array (JStr s) = Inr (map (\<lambda>c. JStr [c]) s)"
| "spread_array _ = Inl TypeError"

text \<open>\<^verbatim>\<open>xs.filter(p)\<close> where the callback may throw: the exception leaves the filter.\<close>

fun filter_e :: "('a \<Rightarrow> js_error + bool) \<Rightarrow> 'a list \<Rightarrow> js_error + 'a list" where
  "filter_e p [] = Inr []"
| "filter_e p (x # xs) =
     bind_e (p x) (\<lambda>b. bind_e (filter_e p xs) (\<lambda>ys. Inr (if b then x # ys else ys)))"

text \<open>\<^verbatim>\<open>if (c) { filteredLogs = filteredLogs.filter(log => log[k] === c) }\<close>.\<close>

definition filter_exact :: "string \<Rightarrow> string option \<Rightarrow> json list \<Rightarrow> js_error + json list" where
  "filter_exact k c logs =
     (case c of
        None \<Rightarrow> Inr logs
      | Some v \<Rightarrow>
          if v = [] then Inr logs
          else filter_e (\<lambda>log. bind_e (get_prop log k) (\<lambda>x. Inr (x = Some (JStr v)))) logs)"

text \<open>\<^verbatim>\<open>s.toLowerCase()\<close> on ASCII text: strings are lists of 8-bit characters here, and only
  the letters \<^verbatim>\<open>A\<close> to \<^verbatim>\<open>Z\<close> change.\<close>

definition to_lower_char :: "char \<Rightarrow> char" where
  "to_lower_char c =
     (let n = (of_char c :: nat) in if 65 \<le> n \<and> n \<le> 90 then char_of (n + 32) else c)"

definition toLowerCase :: "string \<Rightarrow> string" where
  "toLowerCase s = map to_lower_char s"

text \<open>\<^verbatim>\<open>v.toLowerCase()\<close> on a property value: only a string has the method.\<close>

fun toLowerCase_of :: "json option \<Rightarrow> js_error + string" where
  "toLowerCase_of (Some (JStr s)) = Inr (toLowerCase s)"
| "toLowerCase_of _ = Inl TypeError"

definition startsWith :: "string \<Rightarrow> string \<Rightarrow> bool" where
  "startsWith s t = (take (length t) s = t)"

text \<open>\<^verbatim>\<open>s.includes(t)\<close>: \<open>t\<close> occurs in \<open>s\<close> at some position.\<close>

fun includes_str :: "string \<Rightarrow> string \<Rightarrow> bool" where
  "includes_str [] t = (t = [])"
| "includes_str (c # cs) t = (startsWith (c # cs) t \<or> includes_str cs t)"

definition filter_message :: "string option \<Rightarrow> json list \<Rightarrow> js_error + json list" where
  "filter_message c logs =
     (case c of
        None \<Rightarrow> Inr logs
      | Some m \<Rightarrow>
          if m = [] then Inr logs
          else (let messageLower = toLowerCase m in
                filter_e (\<lambda>log. bind_e (get_prop log ''message'')
                            (\<lambda>x. bind_e (toLowerCase_of x)
                              (\<lambda>l. Inr (includes_str l messageLower)))) logs))"

text \<open>\<^verbatim>\<open>new Date(log.timestamp) >= startDate\<close>: a comparison with an invalid date is false.\<close>

definition date_ge :: "int option \<Rightarrow> int \<Rightarrow> bool" where
  "date_ge d bound = (case d of None \<Rightarrow> False | Some t \<Rightarrow> t \<ge> bound)"

definition date_le :: "int option \<Rightarrow> int \<Rightarrow> bool" where
  "date_le d bound = (case d of None \<Rightarrow> False | Some t \<Rightarrow> t \<le> bound)"

definition filter_start :: "date_parser \<Rightarrow> string option \<Rightarrow> json list \<Rightarrow> js_error + json list" where
  "filter_start D c logs =
     (case c of
        None \<Rightarrow> Inr logs
      | Some v \<Rightarrow>
          if v = [] then Inr logs
          else (case D (JStr v) of
                  None \<Rightarrow> Inr logs
                | Some startDate \<Rightarrow>
                    filter_e (\<lambda>log. bind_e (get_prop log ''timestamp'')
                                (\<lambda>x. Inr (date_ge (newDate D x) startDate))) logs))"

definition filter_end :: "date_parser \<Rightarrow> string option \<Rightarrow> json list \<Rightarrow> js_error + json list" where
  "filter_end D c logs =
     (case c of
        None \<Rightarrow> Inr logs
      | Some v \<Rightarrow>
          if v = [] then Inr logs
          else (case D (JStr v) of
                  None \<Rightarrow> Inr logs
                | Some endDate \<Rightarrow>
                    filter_e (\<lambda>log. bind_e (get_prop log ''timestamp'')
                                (\<lambda>x. Inr (date_le (newDate D x) endDate))) logs))"

text \<open>
  The comparator \<^verbatim>\<open>(a, b) => new Date(b.timestamp) - new Date(a.timestamp)\<close> on values that are
  not \<^verbatim>\<open>null\<close>. A difference with an invalid date is \<^verbatim>\<open>NaN\<close>, which \<^verbatim>\<open>sort\<close> reads as \<open>0\<close>.
\<close>

definition compare_desc :: "date_parser \<Rightarrow> json \<Rightarrow> json \<Rightarrow> int" where
  "compare_desc D a b =
     (case (newDate D (field_of b ''timestamp''), newDate D (field_of a ''timestamp'')) of
        (Some tb, Some ta) \<Rightarrow> tb - ta
      | _ \<Rightarrow> 0)"

text \<open>
  \<^verbatim>\<open>Array.prototype.sort\<close> is stable, and with a consistent comparator its result is the one
  stable sorted arrangement, whatever the algorithm; it is computed here by insertion. With two
  or more elements every element is passed to the comparator, which throws on \<^verbatim>\<open>null\<close>.
\<close>

fun insert_by :: "('a \<Rightarrow> 'a \<Rightarrow> int) \<Rightarrow> 'a \<Rightarrow> 'a list \<Rightarrow> 'a list" where
  "insert_by cmp x [] = [x]"
| "insert_by cmp x (y # ys) = (if cmp x y \<le> 0 then x # y # ys else y # insert_by cmp x ys)"

definition sort_by :: "('a \<Rightarrow> 'a \<Rightarrow> int) \<Rightarrow> 'a list \<Rightarrow> 'a list" where
  "sort_by cmp xs = foldr (insert_by cmp) xs []"

definition sort_logs :: "date_parser \<Rightarrow> json list \<Rightarrow> js_error + json list" where
  "sort_logs D logs =
     (if length logs \<ge> 2 \<and> JNull \<in> set logs then Inl TypeError
      else Inr (sort_by (compare_desc D) logs))"

text \<open>The body of the \<^verbatim>\<open>try\<close> block of \<^verbatim>\<open>GET /logs\<close>, on the file it reads.\<close>

definition query_try :: "date_parser \<Rightarrow> query_params \<Rightarrow> db_file \<Rightarrow> js_error + json list" where
  "query_try D q f =
     bind_e (spread_array (readLogs f)) (\<lambda>l0.
     bind_e (filter_exact ''level'' (level q) l0) (\<lambda>l1.
     bind_e (filter_message (message q) l1) (\<lambda>l2.
     bind_e (filter_exact ''resourceId'' (resourceId q) l2) (\<lambda>l3.
     bind_e (filter_start D (timestamp_start q) l3) (\<lambda>l4.
     bind_e (filter_end D (timestamp_end q) l4) (\<lambda>l5.
     bind_e (filter_exact ''traceId'' (traceId q) l5) (\<lambda>l6.
     bind_e (filter_exact ''spanId'' (spanId q) l6) (\<lambda>l7.
     bind_e (filter_exact ''commit'' (commit q) l7) (\<lambda>l8.
     sort_logs D l8)))))))))"

definition query :: "date_parser \<Rightarrow> query_params \<Rightarrow> db_file \<Rightarrow> response" where
  "query D q f = (case query_try D q f of Inl e \<Rightarrow> Status500 | Inr r \<Rightarrow> Status200 r)"

section \<open>Sample data\<close>

text \<open>
  Values of \<^verbatim>\<open>Date\<close> on timestamps of the test suites of the repository, used to run the
  model on concrete requests: \<^verbatim>\<open>Date.parse\<close> of the string, and \<^verbatim>\<open>toISOString\<close> of the result.
  A string outside the table stands for one that does not parse, such as the
  \<^verbatim>\<open>'invalid-date'\<close> of the tests; \<open>sample_ISO\<close> is only applied to the three time values.
\<close>

definition sample_dates :: "(string \<times> int) list" where
  "sample_dates =
     [(''2024-01-01T10:00:00Z'', 1704103200000),
      (''2024-01-01T11:00:00Z'', 1704106800000),
      (''2024-01-01T12:00:00Z'', 1704110400000),
      (''2024-01-01T10:00:00.000Z'', 1704103200000),
      (''2024-01-01T11:00:00.000Z'', 1704106800000),
      (''2024-01-01T12:00:00.000Z'', 1704110400000)]"

fun sample_D :: "json \<Rightarrow> int option" where
  "sample_D (JStr s) = map_of sample_dates s"
| "sample_D (JNum n) = Some n"
| "sample_D JNull = Some 0"
| "sample_D (JBool b) = Some (if b then 1 else 0)"
| "sample_D _ = None"

definition sample_ISO :: "int \<Rightarrow> string" where
  "sample_ISO t =
     (if t = 1704103200000 then ''2024-01-01T10:00:00.000Z''
      else if t = 1704106800000 then ''2024-01-01T11:00:00.000Z''
      else if t = 1704110400000 then ''2024-01-01T12:00:00.000Z''
      else ''1970-01-01T00:00:00.000Z'')"

text \<open>The first record of \<^verbatim>\<open>backend/__tests__/filtering.test.js\<close>, as a request body.\<close>

definition sample_entry :: "(string \<times> json) list" where
  "sample_entry =
     [(''level'', JStr ''error''),
      (''message'', JStr ''Database connection failed''),
      (''resourceId'', JStr ''db-server-01''),
      (''timestamp'', JStr ''2024-01-01T10:00:00Z''),
      (''traceId'', JStr ''trace-001''),
      (''spanId'', JStr ''span-001''),
      (''commit'', JStr ''abc123''),
      (''metadata'', JObj [(''retryCount'', JNum 3)])]"

definition no_filter :: query_params where
  "no_filter = \<lparr>level = None, message = None, resourceId = None, timestamp_start = None,
     timestamp_end = None, traceId = None, spanId = None, commit = None\<rparr>"

definition empty_store :: db_file where
  "empty_store = FileJson (JObj [(''logs'', JArr [])])"

definition sample_env :: env where
  "sample_env = \<lparr>date_now = 1704103200123, new_date = 1704103200000, write_result = WriteOk\<rparr>"

definition sample_server :: server where
  "sample_server = \<lparr>db = empty_store, sockets = [''socket-1''], emitted = []\<rparr>"

section \<open>Notions used in the statements\<close>

text \<open>The record that \<^verbatim>\<open>POST /logs\<close> builds from a request body that passed validation.\<close>

definition new_record :: "date_parser \<Rightarrow> (int \<Rightarrow> string) \<Rightarrow> env \<Rightarrow> json \<Rightarrow> json" where
  "new_record D ISO e logEntry =
     make_newLog (toString (date_now e)) logEntry
       (case newDate D (field_of logEntry ''timestamp'') of None \<Rightarrow> [] | Some t \<Rightarrow> ISO t)
       (ISO (new_date e))"

text \<open>A sequence of \<^verbatim>\<open>POST /logs\<close> requests, handled one after the other.\<close>

fun ingest_all ::
  "date_parser \<Rightarrow> (int \<Rightarrow> string) \<Rightarrow> (env \<times> json) list \<Rightarrow> server \<Rightarrow> server" where
  "ingest_all D ISO [] s = s"
| "ingest_all D ISO ((e, logEntry) # rs) s = ingest_all D ISO rs (snd (ingest D ISO e logEntry s))"

text \<open>A request that passes validation and whose write succeeds.\<close>

definition accepted :: "date_parser \<Rightarrow> env \<times> json \<Rightarrow> bool" where
  "accepted D r = (validateLogEntry D (snd r) = Inr Valid \<and> write_result (fst r) = WriteOk)"

text \<open>A file from which \<^verbatim>\<open>readLogs\<close> gets no collection: it is missing, unreadable, not JSON,
  or its value has no \<^verbatim>\<open>logs\<close> property.\<close>

definition no_collection :: "db_file \<Rightarrow> bool" where
  "no_collection f = (case f of FileJson v \<Rightarrow> field_of v ''logs'' = None | _ \<Rightarrow> True)"

text \<open>Requests and files used to run the model.\<close>

definition fatal_entry :: "(string \<times> json) list" where
  "fatal_entry = AList.update ''level'' (JStr ''fatal'') sample_entry"

definition failing_env :: env where
  "failing_env = sample_env\<lparr>write_result := WriteFails FileCorrupt\<rparr>"

definition sample_request :: "env \<times> json" where
  "sample_request = (sample_env, JObj sample_entry)"

definition corrupt_server :: server where
  "corrupt_server = sample_server\<lparr>db := FileCorrupt\<rparr>"

definition null_metadata_entry :: "(string \<times> json) list" where
  "null_metadata_entry = AList.update ''metadata'' JNull sample_entry"

definition array_metadata_entry :: "(string \<times> json) list" where
  "array_metadata_entry = AList.update ''metadata'' (JArr [JNum 1, JNum 2]) sample_entry"

definition string_metadata_entry :: "(string \<times> json) list" where
  "string_metadata_entry = AList.update ''metadata'' (JStr ''not-an-object'') sample_entry"

definition other_entry :: "(string \<times> json) list" where
  "other_entry = AList.update ''message'' (JStr ''High memory usage detected'') sample_entry"

text \<open>A \<^verbatim>\<open>metadata\<close> property that is absent, \<^verbatim>\<open>null\<close> or a primitive value.\<close>

fun absent_or_primitive :: "json option \<Rightarrow> bool" where
  "absent_or_primitive None = True"
| "absent_or_primitive (Some JNull) = True"
| "absent_or_primitive (Some (JBool b)) = True"
| "absent_or_primitive (Some (JNum n)) = True"
| "absent_or_primitive (Some (JStr s)) = True"
| "absent_or_primitive (Some (JArr xs)) = False"
| "absent_or_primitive (Some (JObj kvs)) = False"

section \<open>Notions used in the statements about queries\<close>

text \<open>The point in time of a stored record, \<^verbatim>\<open>new Date(log.timestamp)\<close>.\<close>

definition time_of :: "date_parser \<Rightarrow> json \<Rightarrow> int option" where
  "time_of D r = newDate D (field_of r ''timestamp'')"

definition timestamp_ms :: "date_parser \<Rightarrow> json \<Rightarrow> int" where
  "timestamp_ms D r = (case time_of D r of None \<Rightarrow> 0 | Some t \<Rightarrow> t)"

text \<open>A log record of the data model: its message is a string and its timestamp is a valid
  point in time.\<close>

definition is_log_record :: "date_parser \<Rightarrow> json \<Rightarrow> bool" where
  "is_log_record D r =
     ((case field_of r ''message'' of Some (JStr m) \<Rightarrow> True | _ \<Rightarrow> False)
      \<and> time_of D r \<noteq> None)"

text \<open>Two characters are the same letter when they are equal or when one is an upper case
  letter \<^verbatim>\<open>A\<close> to \<^verbatim>\<open>Z\<close> and the other is its lower case form.\<close>

definition is_upper :: "char \<Rightarrow> bool" where
  "is_upper c = (65 \<le> (of_char c :: nat) \<and> (of_char c :: nat) \<le> 90)"

definition same_letter :: "char \<Rightarrow> char \<Rightarrow> bool" where
  "same_letter a b =
     (a = b \<or> (is_upper a \<and> (of_char b :: nat) = of_char a + 32)
            \<or> (is_upper b \<and> (of_char a :: nat) = of_char b + 32))"

text \<open>\<open>t\<close> occurs in \<open>s\<close> at some position, letter by letter, whatever the case.\<close>

definition ci_substring :: "string \<Rightarrow> string \<Rightarrow> bool" where
  "ci_substring t s =
     (\<exists>i. i + length t \<le> length s \<and> (\<forall>j < length t. same_letter (s ! (i + j)) (t ! j)))"

text \<open>What each criterion asks of a record; an omitted or empty criterion asks nothing.\<close>

definition exact_match :: "string option \<Rightarrow> json option \<Rightarrow> bool" where
  "exact_match c v = (case c of None \<Rightarrow> True | Some s \<Rightarrow> s = [] \<or> v = Some (JStr s))"

definition message_match :: "string option \<Rightarrow> json option \<Rightarrow> bool" where
  "message_match c v =
     (case c of
        None \<Rightarrow> True
      | Some m \<Rightarrow> m = [] \<or> (\<exists>msg. v = Some (JStr msg) \<and> ci_substring m msg))"

definition not_before :: "int \<Rightarrow> int option \<Rightarrow> bool" where
  "not_before bound d = (case d of None \<Rightarrow> False | Some t \<Rightarrow> bound \<le> t)"

definition not_after :: "int \<Rightarrow> int option \<Rightarrow> bool" where
  "not_after bound d = (case d of None \<Rightarrow> False | Some t \<Rightarrow> t \<le> bound)"

definition start_match :: "date_parser \<Rightarrow> string option \<Rightarrow> int option \<Rightarrow> bool" where
  "start_match D c d =
     (case c of
        None \<Rightarrow> True
      | Some v \<Rightarrow> v = [] \<or> (case D (JStr v) of None \<Rightarrow> True | Some bound \<Rightarrow> not_before bound d))"

definition end_match :: "date_parser \<Rightarrow> string option \<Rightarrow> int option \<Rightarrow> bool" where
  "end_match D c d =
     (case c of
        None \<Rightarrow> True
      | Some v \<Rightarrow> v = [] \<or> (case D (JStr v) of None \<Rightarrow> True | Some bound \<Rightarrow> not_after bound d))"

definition satisfies :: "date_parser \<Rightarrow> query_params \<Rightarrow> json \<Rightarrow> bool" where
  "satisfies D q r =
     (exact_match (level q) (field_of r ''level'')
      \<and> message_match (message q) (field_of r ''message'')
      \<and> exact_match (resourceId q) (field_of r ''resourceId'')
      \<and> start_match D (timestamp_start q) (time_of D r)
      \<and> end_match D (timestamp_end q) (time_of D r)
      \<and> exact_match (traceId q) (field_of r ''traceId'')
      \<and> exact_match (spanId q) (field_of r ''spanId'')
      \<and> exact_match (commit q) (field_of r ''commit''))"


text \<open>Three stored records with the timestamps 10:00, 11:00 and 12:00, and a file that holds
  them in another order.\<close>

definition stored_at :: "string \<Rightarrow> json" where
  "stored_at ts = JObj (AList.update ''timestamp'' (JStr ts) sample_entry)"

definition rec10 :: json where "rec10 = stored_at ''2024-01-01T10:00:00.000Z''"
definition rec11 :: json where "rec11 = stored_at ''2024-01-01T11:00:00.000Z''"
definition rec12 :: json where "rec12 = stored_at ''2024-01-01T12:00:00.000Z''"

definition sample_file :: db_file where
  "sample_file = FileJson (JObj [(''logs'', JArr [rec11, rec12, rec10])])"

definition error_database :: query_params where
  "error_database = no_filter\<lparr>level := Some ''error'', message := Some ''database''\<rparr>"

text \<open>A request body that passes validation with a number as its message, and the file in
  which its record is stored.\<close>

definition number_message_entry :: "(string \<times> json) list" where
  "number_message_entry = AList.update ''message'' (JNum 42) sample_entry"

definition number_message_file :: db_file where
  "number_message_file = FileJson (JObj [(''logs'', JArr [JObj number_message_entry])])"

section \<open>Ingestion: helper facts\<close>

lemma valid_timestamp:
  "validateLogEntry D logEntry = Inr Valid \<Longrightarrow>
   \<exists>t. newDate D (field_of logEntry ''timestamp'') = Some t"
  by (auto simp: validateLogEntry_def Let_def split: if_splits)

lemma ingest_invalid:
  "validateLogEntry D logEntry = Inr (Invalid r) \<Longrightarrow>
   ingest D ISO e logEntry s = (Status400 (error_message r), s)"
  by (simp add: ingest_def)

lemma ingest_throws:
  "validateLogEntry D logEntry = Inl err \<Longrightarrow> ingest D ISO e logEntry s = (Status500, s)"
  by (simp add: ingest_def)

text \<open>What the handler does with a request that passed validation.\<close>

lemma ingest_valid:
  assumes "validateLogEntry D logEntry = Inr Valid"
  shows "ingest D ISO e logEntry s =
     (case readLogs (db s) of
        JArr old \<Rightarrow>
          (case write_result e of
             WriteOk \<Rightarrow>
               (Status201 (new_record D ISO e logEntry),
                s\<lparr>db := FileJson (JObj [(''logs'',
                          JArr (take 1000 (new_record D ISO e logEntry # old)))]),
                  emitted := emitted s @
                    [(\<lparr>etype = ''logIngested'', elog = new_record D ISO e logEntry,
                       totalLogs = length (take 1000 (new_record D ISO e logEntry # old))\<rparr>,
                      sockets s)]\<rparr>)
           | WriteFails f' \<Rightarrow> (Status500, s\<lparr>db := f'\<rparr>))
      | _ \<Rightarrow> (Status500, s))"
proof -
  from valid_timestamp [OF assms] obtain t
    where t: "newDate D (field_of logEntry ''timestamp'') = Some t" by blast
  show ?thesis
    by (cases "readLogs (db s)"; cases "write_result e")
       (simp_all add: ingest_def assms t toISOString_def new_record_def writeLogs_def Let_def)
qed

text \<open>A response \<open>201\<close> is given only on the path where every step succeeded.\<close>

lemma ingest_201:
  assumes "fst (ingest D ISO e logEntry s) = Status201 r"
  shows "validateLogEntry D logEntry = Inr Valid \<and> write_result e = WriteOk \<and>
         r = new_record D ISO e logEntry \<and> (\<exists>old. readLogs (db s) = JArr old)"
proof (cases "validateLogEntry D logEntry")
  case (Inl err)
  with assms show ?thesis by (simp add: ingest_throws)
next
  case (Inr v)
  show ?thesis
  proof (cases v)
    case Valid
    with Inr have ok: "validateLogEntry D logEntry = Inr Valid" by simp
    from assms show ?thesis
      unfolding ingest_valid [OF ok]
      by (cases "readLogs (db s)"; cases "write_result e") (simp_all add: ok)
  next
    case (Invalid x)
    with Inr assms show ?thesis by (simp add: ingest_invalid)
  qed
qed

lemma readLogs_container [simp]:
  "readLogs (FileJson (JObj [(''logs'', JArr xs)])) = JArr xs"
  by (simp add: readLogs_def readLogs_try_def get_prop_def)

lemma take_append_take: "take n (xs @ take n ys) = take n (xs @ ys)"
  by (simp add: min_def)

section \<open>Sample requests\<close>

lemma sample_valid: "validateLogEntry sample_D (JObj sample_entry) = Inr Valid"
  by code_simp

lemma fatal_invalid: "validateLogEntry sample_D (JObj fatal_entry) = Inr (Invalid InvalidLevel)"
  by code_simp

lemma sample_read: "readLogs (db sample_server) = JArr []"
  by (simp add: sample_server_def empty_store_def)

lemma sample_write: "write_result sample_env = WriteOk"
  by (simp add: sample_env_def)

lemma sample_ingest_201: 
  "fst (ingest sample_D sample_ISO sample_env (JObj sample_entry) sample_server) =
     Status201 (new_record sample_D sample_ISO sample_env (JObj sample_entry))"
  by (simp add: ingest_valid [OF sample_valid] sample_read sample_write)

lemma sample_ingest_emitted: 
  "emitted (snd (ingest sample_D sample_ISO sample_env (JObj sample_entry) sample_server)) \<noteq>
     emitted sample_server"
  by (simp add: ingest_valid [OF sample_valid] sample_read sample_write)

lemma sample_accepted: "accepted sample_D sample_request"
  by (simp add: accepted_def sample_request_def sample_valid sample_write)

section \<open>Ingestion: ordering of validation, persistence and broadcast\<close>

text \<open>
  Claim C1. A request whose validation fails is answered \<open>400\<close> and changes neither the file nor
  the broadcasts. A request that passes validation but whose write fails is answered \<open>500\<close> and
  nothing is broadcast. A broadcast is made only by a request that passed validation, was
  answered \<open>201\<close>, and whose record is at the head of the collection now in the file. The file
  changes only for a request that passed validation.
\<close>

theorem ingest_strictly_ordered:
  "(\<forall>r. validateLogEntry D logEntry = Inr (Invalid r) \<longrightarrow>
      ingest D ISO e logEntry s = (Status400 (error_message r), s))
   \<and> (validateLogEntry D logEntry = Inr Valid \<and> write_result e \<noteq> WriteOk \<longrightarrow>
      fst (ingest D ISO e logEntry s) = Status500
      \<and> emitted (snd (ingest D ISO e logEntry s)) = emitted s)
   \<and> (emitted (snd (ingest D ISO e logEntry s)) \<noteq> emitted s \<longrightarrow>
      validateLogEntry D logEntry = Inr Valid
      \<and> fst (ingest D ISO e logEntry s) = Status201 (new_record D ISO e logEntry)
      \<and> (\<exists>rest. db (snd (ingest D ISO e logEntry s)) =
            FileJson (JObj [(''logs'', JArr (new_record D ISO e logEntry # rest))])))
   \<and> (db (snd (ingest D ISO e logEntry s)) \<noteq> db s \<longrightarrow>
      validateLogEntry D logEntry = Inr Valid)"
proof (intro conjI allI impI)
  fix r assume "validateLogEntry D logEntry = Inr (Invalid r)"
  then show "ingest D ISO e logEntry s = (Status400 (error_message r), s)"
    by (rule ingest_invalid)
next
  assume a: "validateLogEntry D logEntry = Inr Valid \<and> write_result e \<noteq> WriteOk"
  then have ok: "validateLogEntry D logEntry = Inr Valid" and w: "write_result e \<noteq> WriteOk"
    by simp_all
  from w show "fst (ingest D ISO e logEntry s) = Status500"
    unfolding ingest_valid [OF ok]
    by (cases "readLogs (db s)"; cases "write_result e") simp_all
  from w show "emitted (snd (ingest D ISO e logEntry s)) = emitted s"
    unfolding ingest_valid [OF ok]
    by (cases "readLogs (db s)"; cases "write_result e") simp_all
next
  assume ch: "emitted (snd (ingest D ISO e logEntry s)) \<noteq> emitted s"
  show ok: "validateLogEntry D logEntry = Inr Valid"
  proof (cases "validateLogEntry D logEntry")
    case (Inl err)
    with ch show ?thesis by (simp add: ingest_throws)
  next
    case (Inr v)
    with ch show ?thesis by (cases v) (simp_all add: ingest_invalid)
  qed
  from ch show "fst (ingest D ISO e logEntry s) = Status201 (new_record D ISO e logEntry)"
    unfolding ingest_valid [OF ok]
    by (cases "readLogs (db s)"; cases "write_result e") simp_all
  from ch show "\<exists>rest. db (snd (ingest D ISO e logEntry s)) =
            FileJson (JObj [(''logs'', JArr (new_record D ISO e logEntry # rest))])"
    unfolding ingest_valid [OF ok]
    by (cases "readLogs (db s)"; cases "write_result e") simp_all
next
  assume ch: "db (snd (ingest D ISO e logEntry s)) \<noteq> db s"
  show "validateLogEntry D logEntry = Inr Valid"
  proof (cases "validateLogEntry D logEntry")
    case (Inl err)
    with ch show ?thesis by (simp add: ingest_throws)
  next
    case (Inr v)
    with ch show ?thesis by (cases v) (simp_all add: ingest_invalid)
  qed
qed

theorem ingest_strictly_ordered_witness:
  "ingest sample_D sample_ISO sample_env (JObj fatal_entry) sample_server =
     (Status400 (error_message InvalidLevel), sample_server)
   \<and> fst (ingest sample_D sample_ISO failing_env (JObj sample_entry) sample_server) = Status500
   \<and> emitted (snd (ingest sample_D sample_ISO failing_env (JObj sample_entry) sample_server)) =
       emitted sample_server
   \<and> fst (ingest sample_D sample_ISO sample_env (JObj sample_entry) sample_server) =
       Status201 (new_record sample_D sample_ISO sample_env (JObj sample_entry))
   \<and> (\<exists>rest. db (snd (ingest sample_D sample_ISO sample_env (JObj sample_entry) sample_server)) =
         FileJson (JObj [(''logs'',
           JArr (new_record sample_D sample_ISO sample_env (JObj sample_entry) # rest))]))"
proof -
  have w: "write_result failing_env \<noteq> WriteOk"
    by (simp add: failing_env_def)
  note a = ingest_strictly_ordered [of sample_D "JObj fatal_entry" sample_ISO sample_env sample_server]
  note b = ingest_strictly_ordered [of sample_D "JObj sample_entry" sample_ISO failing_env sample_server]
  note c = ingest_strictly_ordered [of sample_D "JObj sample_entry" sample_ISO sample_env sample_server]
  from a fatal_invalid have 1: "ingest sample_D sample_ISO sample_env (JObj fatal_entry) sample_server =
     (Status400 (error_message InvalidLevel), sample_server)" by blast
  from b sample_valid w have 2: "fst (ingest sample_D sample_ISO failing_env (JObj sample_entry) sample_server) = Status500
   \<and> emitted (snd (ingest sample_D sample_ISO failing_env (JObj sample_entry) sample_server)) =
       emitted sample_server" by blast
  from c sample_ingest_emitted have 3: "fst (ingest sample_D sample_ISO sample_env (JObj sample_entry) sample_server) =
       Status201 (new_record sample_D sample_ISO sample_env (JObj sample_entry))
   \<and> (\<exists>rest. db (snd (ingest sample_D sample_ISO sample_env (JObj sample_entry) sample_server)) =
         FileJson (JObj [(''logs'',
           JArr (new_record sample_D sample_ISO sample_env (JObj sample_entry) # rest))]))" by blast
  from 1 2 3 show ?thesis by blast
qed

text \<open>
  Claim C9. A request answered \<open>201\<close> adds exactly one broadcast, made to the sockets connected
  at that moment; its event carries the stored record, which is the head of the collection now
  in the file, and the number of records of that collection, which is at most \<open>1000\<close>.
\<close>

theorem successful_ingest_broadcasts_once:
  assumes "fst (ingest D ISO e logEntry s) = Status201 r"
  shows "\<exists>rest. db (snd (ingest D ISO e logEntry s)) = FileJson (JObj [(''logs'', JArr (r # rest))])
           \<and> emitted (snd (ingest D ISO e logEntry s)) =
               emitted s @ [(\<lparr>etype = ''logIngested'', elog = r,
                               totalLogs = length (r # rest)\<rparr>, sockets s)]
           \<and> length (r # rest) \<le> 1000"
proof -
  from ingest_201 [OF assms] obtain old
    where ok: "validateLogEntry D logEntry = Inr Valid" and w: "write_result e = WriteOk"
      and r: "r = new_record D ISO e logEntry" and old: "readLogs (db s) = JArr old"
    by blast
  show ?thesis
    unfolding ingest_valid [OF ok] by (simp add: old w r)
qed

theorem successful_ingest_broadcasts_once_witness:
  "\<exists>rest. db (snd (ingest sample_D sample_ISO sample_env (JObj sample_entry) sample_server)) =
       FileJson (JObj [(''logs'',
         JArr (new_record sample_D sample_ISO sample_env (JObj sample_entry) # rest))])
     \<and> emitted (snd (ingest sample_D sample_ISO sample_env (JObj sample_entry) sample_server)) =
         emitted sample_server @
           [(\<lparr>etype = ''logIngested'',
              elog = new_record sample_D sample_ISO sample_env (JObj sample_entry),
              totalLogs = length (new_record sample_D sample_ISO sample_env (JObj sample_entry) # rest)\<rparr>,
             sockets sample_server)]
     \<and> length (new_record sample_D sample_ISO sample_env (JObj sample_entry) # rest) \<le> 1000"
  using successful_ingest_broadcasts_once [OF sample_ingest_201] .

section \<open>Retention\<close>

lemma ingest_all_accepted:
  assumes "\<forall>r \<in> set reqs. accepted D r" and "readLogs (db s) = JArr old"
  shows "db (ingest_all D ISO reqs s) = (if reqs = [] then db s else 
     FileJson (JObj [(''logs'', JArr (take 1000 (rev (map (\<lambda>r. new_record D ISO (fst r) (snd r)) reqs) @ old)))]))"
  using assms
proof (induction reqs arbitrary: s old)
  case Nil
  then show ?case by simp
next
  case (Cons a reqs)
  obtain e b where a: "a = (e, b)" by (cases a)
  from Cons.prems a have ok: "validateLogEntry D b = Inr Valid" and w: "write_result e = WriteOk"
    by (simp_all add: accepted_def)
  let ?s1 = "snd (ingest D ISO e b s)"
  have s1: "db ?s1 = FileJson (JObj [(''logs'', JArr (take 1000 (new_record D ISO e b # old)))])"
    unfolding ingest_valid [OF ok] by (simp add: Cons.prems w)
  then have r1: "readLogs (db ?s1) = JArr (take 1000 (new_record D ISO e b # old))" by simp
  from Cons.prems have rest: "\<forall>r \<in> set reqs. accepted D r" by simp
  show ?case
  proof (cases "reqs = []")
    case True
    then show ?thesis by (simp add: a s1)
  next
    case False
    with Cons.IH [OF rest r1]
    have "db (ingest_all D ISO reqs ?s1) =
      FileJson (JObj [(''logs'', JArr (take 1000
        (rev (map (\<lambda>r. new_record D ISO (fst r) (snd r)) reqs) @ (new_record D ISO e b # old))))])"
      by (simp only: take_append_take if_False)
    then show ?thesis by (simp add: a)
  qed
qed

text \<open>
  Claim C2. A request answered \<open>201\<close> leaves in the file its record followed by the first
  \<open>999\<close> records of the collection read, in their order: at most \<open>1000\<close> records, the new one at
  the head, and what is dropped is the tail of the collection, whatever the timestamps. After a
  non-empty sequence of accepted requests the file holds the first \<open>1000\<close> of their records, latest
  first, followed by the old ones. After \<open>1001\<close> accepted requests on an empty collection it holds
  the records of all but the first request, \<open>1000\<close> records.
\<close>

theorem retention_cap:
  "(fst (ingest D ISO e logEntry s) = Status201 r \<longrightarrow>
      (\<exists>old stored. readLogs (db s) = JArr old
         \<and> readLogs (db (snd (ingest D ISO e logEntry s))) = JArr stored
         \<and> stored = r # take 999 old \<and> length stored \<le> 1000
         \<and> r # old = stored @ drop 999 old))
   \<and> ((\<forall>x \<in> set reqs. accepted D x) \<and> reqs \<noteq> [] \<and> readLogs (db s) = JArr old \<longrightarrow>
      readLogs (db (ingest_all D ISO reqs s)) =
        JArr (take 1000 (rev (map (\<lambda>x. new_record D ISO (fst x) (snd x)) reqs) @ old)))
   \<and> ((\<forall>x \<in> set reqs. accepted D x) \<and> length reqs = 1001 \<and> readLogs (db s) = JArr [] \<longrightarrow>
      readLogs (db (ingest_all D ISO reqs s)) =
        JArr (rev (map (\<lambda>x. new_record D ISO (fst x) (snd x)) (tl reqs)))
      \<and> length (rev (map (\<lambda>x. new_record D ISO (fst x) (snd x)) (tl reqs))) = 1000)"
proof (intro conjI impI)
  assume a: "fst (ingest D ISO e logEntry s) = Status201 r"
  from ingest_201 [OF a] obtain old
    where ok: "validateLogEntry D logEntry = Inr Valid" and w: "write_result e = WriteOk"
      and r: "r = new_record D ISO e logEntry" and old: "readLogs (db s) = JArr old"
    by blast
  have "readLogs (db (snd (ingest D ISO e logEntry s))) = JArr (r # take 999 old)"
    unfolding ingest_valid [OF ok] by (simp add: old w r)
  with old show "\<exists>old stored. readLogs (db s) = JArr old
         \<and> readLogs (db (snd (ingest D ISO e logEntry s))) = JArr stored
         \<and> stored = r # take 999 old \<and> length stored \<le> 1000
         \<and> r # old = stored @ drop 999 old"
    by simp
next
  assume a: "(\<forall>x \<in> set reqs. accepted D x) \<and> reqs \<noteq> [] \<and> readLogs (db s) = JArr old"
  then have acc: "\<forall>x \<in> set reqs. accepted D x" and ne: "reqs \<noteq> []"
    and rl: "readLogs (db s) = JArr old"
    by simp_all
  have "db (ingest_all D ISO reqs s) = FileJson (JObj [(''logs'',
        JArr (take 1000 (rev (map (\<lambda>x. new_record D ISO (fst x) (snd x)) reqs) @ old)))])"
    using ingest_all_accepted [OF acc rl, of ISO] ne by simp
  then show "readLogs (db (ingest_all D ISO reqs s)) =
        JArr (take 1000 (rev (map (\<lambda>x. new_record D ISO (fst x) (snd x)) reqs) @ old))"
    by (simp only: readLogs_container)
next
  assume a: "(\<forall>x \<in> set reqs. accepted D x) \<and> length reqs = 1001 \<and> readLogs (db s) = JArr []"
  then obtain x xs where reqs: "reqs = x # xs" and len: "length xs = 1000"
    by (cases reqs) simp_all
  from a have acc: "\<forall>x \<in> set reqs. accepted D x" and rl: "readLogs (db s) = JArr []"
    by simp_all
  have "db (ingest_all D ISO reqs s) = FileJson (JObj [(''logs'',
        JArr (take 1000 (rev (map (\<lambda>x. new_record D ISO (fst x) (snd x)) reqs) @ [])))])"
    using ingest_all_accepted [OF acc rl, of ISO] by (simp add: reqs)
  then have "readLogs (db (ingest_all D ISO reqs s)) =
        JArr (take 1000 (rev (map (\<lambda>x. new_record D ISO (fst x) (snd x)) reqs) @ []))"
    by (simp only: readLogs_container)
  then show "readLogs (db (ingest_all D ISO reqs s)) =
        JArr (rev (map (\<lambda>x. new_record D ISO (fst x) (snd x)) (tl reqs)))"
    by (simp add: reqs len)
  show "length (rev (map (\<lambda>x. new_record D ISO (fst x) (snd x)) (tl reqs))) = 1000"
    by (simp add: reqs len)
qed

theorem retention_cap_witness:
  "(\<exists>old stored. readLogs (db sample_server) = JArr old
       \<and> readLogs (db (snd (ingest sample_D sample_ISO sample_env (JObj sample_entry) sample_server))) =
           JArr stored
       \<and> stored = new_record sample_D sample_ISO sample_env (JObj sample_entry) # take 999 old
       \<and> length stored \<le> 1000)
   \<and> readLogs (db (ingest_all sample_D sample_ISO [sample_request, sample_request] sample_server)) =
       JArr (take 1000 (rev (map (\<lambda>x. new_record sample_D sample_ISO (fst x) (snd x))
         [sample_request, sample_request]) @ []))
   \<and> length (replicate 1001 sample_request) = 1001
   \<and> readLogs (db (ingest_all sample_D sample_ISO (replicate 1001 sample_request) sample_server)) =
       JArr (rev (map (\<lambda>x. new_record sample_D sample_ISO (fst x) (snd x))
         (tl (replicate 1001 sample_request))))"
proof -
  note a = retention_cap [of sample_D sample_ISO sample_env "JObj sample_entry" sample_server
      "new_record sample_D sample_ISO sample_env (JObj sample_entry)"
      "[sample_request, sample_request]" "[]"]
  note b = retention_cap [of sample_D sample_ISO sample_env "JObj sample_entry" sample_server
      "new_record sample_D sample_ISO sample_env (JObj sample_entry)"
      "replicate 1001 sample_request" "[]"]
  have h2: "(\<forall>x \<in> set [sample_request, sample_request]. accepted sample_D x)
      \<and> [sample_request, sample_request] \<noteq> [] \<and> readLogs (db sample_server) = JArr []"
    by (simp add: sample_accepted sample_read)
  have len: "length (replicate 1001 sample_request) = 1001" by simp
  have h3: "(\<forall>x \<in> set (replicate 1001 sample_request). accepted sample_D x)
      \<and> length (replicate 1001 sample_request) = 1001 \<and> readLogs (db sample_server) = JArr []"
    by (simp add: sample_accepted sample_read)
  from a sample_ingest_201 have 1: "(\<exists>old stored. readLogs (db sample_server) = JArr old
       \<and> readLogs (db (snd (ingest sample_D sample_ISO sample_env (JObj sample_entry) sample_server))) =
           JArr stored
       \<and> stored = new_record sample_D sample_ISO sample_env (JObj sample_entry) # take 999 old
       \<and> length stored \<le> 1000)" by blast
  from a h2 have 2: "readLogs (db (ingest_all sample_D sample_ISO [sample_request, sample_request] sample_server)) =
       JArr (take 1000 (rev (map (\<lambda>x. new_record sample_D sample_ISO (fst x) (snd x))
         [sample_request, sample_request]) @ []))" by blast
  from b h3 have 3: "readLogs (db (ingest_all sample_D sample_ISO (replicate 1001 sample_request) sample_server)) =
       JArr (rev (map (\<lambda>x. new_record sample_D sample_ISO (fst x) (snd x))
         (tl (replicate 1001 sample_request))))" by blast
  from 1 2 len 3 show ?thesis by blast
qed

section \<open>Validation of the metadata\<close>

lemma metadata_in_required: "''metadata'' \<in> set required"
  by (simp add: required_def)

text \<open>
  Claim C3, as amended. A request body whose \<^verbatim>\<open>metadata\<close> is absent, \<^verbatim>\<open>null\<close> or a primitive value
  never passes validation. When the value is falsy (absent, \<^verbatim>\<open>null\<close>, \<^verbatim>\<open>false\<close>, \<open>0\<close>, the empty
  string) the reason is the list of missing fields, which names \<^verbatim>\<open>metadata\<close>. When all eight
  fields are truthy, the level is valid and the timestamp parses, the reason is the invalid
  metadata.
\<close>

theorem metadata_null_or_primitive_rejected:
  assumes "logEntry \<noteq> JNull" and "absent_or_primitive (field_of logEntry ''metadata'')"
  shows "(\<exists>r. validateLogEntry D logEntry = Inr (Invalid r))
     \<and> (\<not> truthy (field_of logEntry ''metadata'') \<longrightarrow>
          (\<exists>ms. validateLogEntry D logEntry = Inr (Invalid (MissingFields ms))
                \<and> ''metadata'' \<in> set ms))
     \<and> ((\<forall>f \<in> set required. truthy (field_of logEntry f))
          \<and> includes_level (field_of logEntry ''level'')
          \<and> newDate D (field_of logEntry ''timestamp'') \<noteq> None \<longrightarrow>
          validateLogEntry D logEntry = Inr (Invalid InvalidMetadata))"
proof (intro conjI impI)
  have obj: "\<not> typeof_object (field_of logEntry ''metadata'')
             \<or> field_of logEntry ''metadata'' = Some JNull"
    using assms(2) by (cases "field_of logEntry ''metadata''" rule: absent_or_primitive.cases) simp_all
  with assms(1) show "\<exists>r. validateLogEntry D logEntry = Inr (Invalid r)"
    by (auto simp: validateLogEntry_def Let_def)
  {
    assume f: "\<not> truthy (field_of logEntry ''metadata'')"
    let ?ms = "filter (\<lambda>field. \<not> truthy (field_of logEntry field)) required"
    from f have m: "''metadata'' \<in> set ?ms" by (simp add: metadata_in_required)
    then have "length ?ms > 0" by (cases ?ms) simp_all
    with assms(1) have "validateLogEntry D logEntry = Inr (Invalid (MissingFields ?ms))"
      by (simp add: validateLogEntry_def Let_def)
    with m show "\<exists>ms. validateLogEntry D logEntry = Inr (Invalid (MissingFields ms))
                \<and> ''metadata'' \<in> set ms" by blast
  }
  {
    assume h: "(\<forall>f \<in> set required. truthy (field_of logEntry f))
          \<and> includes_level (field_of logEntry ''level'')
          \<and> newDate D (field_of logEntry ''timestamp'') \<noteq> None"
    then have "filter (\<lambda>field. \<not> truthy (field_of logEntry field)) required = []"
      by (simp add: filter_empty_conv)
    with assms(1) h obj show "validateLogEntry D logEntry = Inr (Invalid InvalidMetadata)"
      by (auto simp: validateLogEntry_def Let_def)
  }
qed

theorem metadata_null_or_primitive_rejected_witness:
  "JObj null_metadata_entry \<noteq> JNull
   \<and> absent_or_primitive (field_of (JObj null_metadata_entry) ''metadata'')
   \<and> \<not> truthy (field_of (JObj null_metadata_entry) ''metadata'')
   \<and> (\<exists>ms. validateLogEntry sample_D (JObj null_metadata_entry) = Inr (Invalid (MissingFields ms))
            \<and> ''metadata'' \<in> set ms)
   \<and> absent_or_primitive (field_of (JObj string_metadata_entry) ''metadata'')
   \<and> truthy (field_of (JObj string_metadata_entry) ''metadata'')
   \<and> includes_level (field_of (JObj string_metadata_entry) ''level'')
   \<and> validateLogEntry sample_D (JObj string_metadata_entry) = Inr (Invalid InvalidMetadata)"
proof -
  have n1: "JObj null_metadata_entry \<noteq> JNull" by simp
  have n2: "absent_or_primitive (field_of (JObj null_metadata_entry) ''metadata'')"
    by (simp add: null_metadata_entry_def sample_entry_def)
  have n3: "\<not> truthy (field_of (JObj null_metadata_entry) ''metadata'')"
    by (simp add: null_metadata_entry_def sample_entry_def)
  have s1: "JObj string_metadata_entry \<noteq> JNull" by simp
  have s2: "absent_or_primitive (field_of (JObj string_metadata_entry) ''metadata'')"
    by (simp add: string_metadata_entry_def sample_entry_def)
  have s3: "\<forall>f \<in> set required. truthy (field_of (JObj string_metadata_entry) f)"
    by (simp add: string_metadata_entry_def sample_entry_def required_def)
  have s4: "includes_level (field_of (JObj string_metadata_entry) ''level'')"
    by (simp add: string_metadata_entry_def sample_entry_def validLevels_def)
  have s5: "newDate sample_D (field_of (JObj string_metadata_entry) ''timestamp'') \<noteq> None"
    by (simp add: string_metadata_entry_def sample_entry_def newDate_def sample_dates_def)
  from metadata_null_or_primitive_rejected [OF n1 n2, of sample_D] n3
  have a: "\<exists>ms. validateLogEntry sample_D (JObj null_metadata_entry) = Inr (Invalid (MissingFields ms))
            \<and> ''metadata'' \<in> set ms" by blast
  from metadata_null_or_primitive_rejected [OF s1 s2, of sample_D] s3 s4 s5
  have b: "validateLogEntry sample_D (JObj string_metadata_entry) = Inr (Invalid InvalidMetadata)"
    by blast
  have s6: "truthy (field_of (JObj string_metadata_entry) ''metadata'')"
    by (simp add: string_metadata_entry_def sample_entry_def)
  show ?thesis by (intro conjI n1 n2 n3 a s2 s6 s4 b)
qed

text \<open>
  Claim C3 as stated fails: a \<^verbatim>\<open>null\<close> metadata is reported as a missing field, not as invalid
  metadata, and an array passes the test \<^verbatim>\<open>typeof logEntry.metadata !== 'object'\<close>, so that the
  request is valid.
\<close>

theorem metadata_claim_counterexample:
  "field_of (JObj null_metadata_entry) ''metadata'' = Some JNull
   \<and> validateLogEntry sample_D (JObj null_metadata_entry) = Inr (Invalid (MissingFields [''metadata'']))
   \<and> field_of (JObj array_metadata_entry) ''metadata'' = Some (JArr [JNum 1, JNum 2])
   \<and> validateLogEntry sample_D (JObj array_metadata_entry) = Inr Valid"
  by code_simp

section \<open>Identifiers\<close>

lemma other_valid: "validateLogEntry sample_D (JObj other_entry) = Inr Valid"
  by code_simp

lemma toString_sample: "toString 1704103200123 = ''1704103200123''"
  by (simp add: toString.simps digit_def)

lemma sample_id:
  "field_of (new_record sample_D sample_ISO sample_env (JObj sample_entry)) ''id'' =
     Some (JStr ''1704103200123'')"
  by (simp add: new_record_def make_newLog_def assign_def sample_entry_def sample_env_def toString_sample)

lemma other_id:
  "field_of (new_record sample_D sample_ISO sample_env (JObj other_entry)) ''id'' =
     Some (JStr ''1704103200123'')"
  by (simp add: new_record_def make_newLog_def assign_def other_entry_def sample_entry_def sample_env_def toString_sample)

lemma differ: "new_record sample_D sample_ISO sample_env (JObj sample_entry) \<noteq> new_record sample_D sample_ISO sample_env (JObj other_entry)"
  by (simp add: new_record_def make_newLog_def assign_def other_entry_def sample_entry_def)

text \<open>
  Claim C4 on the code: the id is the decimal text of \<^verbatim>\<open>Date.now()\<close>. Two different valid requests
  handled while the clock shows the same millisecond are both stored, as different records with
  the same id.
\<close>

theorem same_millisecond_same_id:
  "readLogs (db (ingest_all sample_D sample_ISO
       [(sample_env, JObj sample_entry), (sample_env, JObj other_entry)] sample_server)) =
     JArr [new_record sample_D sample_ISO sample_env (JObj other_entry),
           new_record sample_D sample_ISO sample_env (JObj sample_entry)]
   \<and> new_record sample_D sample_ISO sample_env (JObj other_entry) \<noteq>
       new_record sample_D sample_ISO sample_env (JObj sample_entry)
   \<and> field_of (new_record sample_D sample_ISO sample_env (JObj other_entry)) ''id'' =
       Some (JStr ''1704103200123'')
   \<and> field_of (new_record sample_D sample_ISO sample_env (JObj sample_entry)) ''id'' =
       Some (JStr ''1704103200123'')"
proof -
  have acc: "\<forall>r \<in> set [(sample_env, JObj sample_entry), (sample_env, JObj other_entry)].
               accepted sample_D r"
    by (simp add: accepted_def sample_valid other_valid sample_write)
  have "db (ingest_all sample_D sample_ISO
       [(sample_env, JObj sample_entry), (sample_env, JObj other_entry)] sample_server) =
     FileJson (JObj [(''logs'', JArr [new_record sample_D sample_ISO sample_env (JObj other_entry),
           new_record sample_D sample_ISO sample_env (JObj sample_entry)])])"
    using ingest_all_accepted [OF acc sample_read, of sample_ISO] by simp
  then have "readLogs (db (ingest_all sample_D sample_ISO
       [(sample_env, JObj sample_entry), (sample_env, JObj other_entry)] sample_server)) =
     JArr [new_record sample_D sample_ISO sample_env (JObj other_entry),
           new_record sample_D sample_ISO sample_env (JObj sample_entry)]"
    by (simp only: readLogs_container)
  moreover have "new_record sample_D sample_ISO sample_env (JObj other_entry) \<noteq>
       new_record sample_D sample_ISO sample_env (JObj sample_entry)"
    using differ by (rule not_sym)
  ultimately show ?thesis using sample_id other_id by blast
qed

section \<open>Query: helper facts\<close>

lemma filter_exact_Nil [simp]: "filter_exact k c [] = Inr []"
  by (simp add: filter_exact_def split: option.splits)

lemma filter_message_Nil [simp]: "filter_message c [] = Inr []"
  by (simp add: filter_message_def Let_def split: option.splits)

lemma filter_start_Nil [simp]: "filter_start D c [] = Inr []"
  by (simp add: filter_start_def split: option.splits)

lemma filter_end_Nil [simp]: "filter_end D c [] = Inr []"
  by (simp add: filter_end_def split: option.splits)

lemma sort_logs_Nil [simp]: "sort_logs D [] = Inr []"
  by (simp add: sort_logs_def sort_by_def)

lemma bind_e_Inr [simp]: "bind_e (Inr x) f = f x"
  by (simp add: bind_e_def)

lemma bind_e_Inl [simp]: "bind_e (Inl e) f = Inl e"
  by (simp add: bind_e_def)

section \<open>Unreadable store\<close>

lemma query_try_empty:
  assumes "readLogs f = JArr []"
  shows "query_try D q f = Inr []"
  by (simp add: query_try_def assms)

lemma readLogs_no_collection: "no_collection f \<Longrightarrow> readLogs f = JArr []"
  by (cases f) (simp_all add: no_collection_def readLogs_def readLogs_try_def get_prop_def)

text \<open>
  Claim C10. When the file is missing, unreadable, not JSON, or holds a value without the
  \<^verbatim>\<open>logs\<close> property, \<^verbatim>\<open>readLogs\<close> returns the empty array, a query is answered \<open>200\<close> with no
  record, and a request answered \<open>201\<close> leaves a file whose collection is its record alone.
\<close>

theorem unreadable_store_is_empty:
  assumes "no_collection f"
  shows "readLogs f = JArr [] \<and> query D q f = Status200 []
     \<and> (db s = f \<and> fst (ingest D ISO e logEntry s) = Status201 r \<longrightarrow>
          db (snd (ingest D ISO e logEntry s)) = FileJson (JObj [(''logs'', JArr [r])]))"
proof (intro conjI impI)
  show rl: "readLogs f = JArr []" using assms by (rule readLogs_no_collection)
  show "query D q f = Status200 []" by (simp add: query_def query_try_empty [OF rl])
  assume a: "db s = f \<and> fst (ingest D ISO e logEntry s) = Status201 r"
  then have a201: "fst (ingest D ISO e logEntry s) = Status201 r" and dbs: "db s = f" by simp_all
  from ingest_201 [OF a201]
  have ok: "validateLogEntry D logEntry = Inr Valid" and w: "write_result e = WriteOk"
      and r: "r = new_record D ISO e logEntry"
    by simp_all
  show "db (snd (ingest D ISO e logEntry s)) = FileJson (JObj [(''logs'', JArr [r])])"
    unfolding ingest_valid [OF ok] by (simp add: dbs rl w r)
qed

theorem unreadable_store_is_empty_witness:
  "no_collection FileCorrupt \<and> readLogs FileCorrupt = JArr []
   \<and> query sample_D no_filter FileCorrupt = Status200 []
   \<and> db (snd (ingest sample_D sample_ISO sample_env (JObj sample_entry) corrupt_server)) =
       FileJson (JObj [(''logs'', JArr [new_record sample_D sample_ISO sample_env (JObj sample_entry)])])"
proof -
  have h: "no_collection FileCorrupt" by (simp add: no_collection_def)
  have d: "db corrupt_server = FileCorrupt" by (simp add: corrupt_server_def)
  have r: "readLogs (db corrupt_server) = JArr []"
    by (simp add: d readLogs_def readLogs_try_def)
  have i: "fst (ingest sample_D sample_ISO sample_env (JObj sample_entry) corrupt_server) =
     Status201 (new_record sample_D sample_ISO sample_env (JObj sample_entry))"
    by (simp add: ingest_valid [OF sample_valid] r sample_write)
  from unreadable_store_is_empty [OF h, of sample_D no_filter corrupt_server sample_ISO sample_env
      "JObj sample_entry" "new_record sample_D sample_ISO sample_env (JObj sample_entry)"] h d i
  show ?thesis by blast
qed

section \<open>Query: strings\<close>

lemma filter_e_total:
  "(\<forall>x \<in> set xs. p x = Inr (P x)) \<Longrightarrow> filter_e p xs = Inr (filter P xs)"
  by (induction xs) simp_all

lemma startsWith_iff:
  "startsWith s t \<longleftrightarrow> length t \<le> length s \<and> take (length t) s = t"
proof
  assume "startsWith s t"
  then have eq: "take (length t) s = t" by (simp add: startsWith_def)
  then have "length (take (length t) s) = length t" by simp
  then have "length t \<le> length s" by simp
  with eq show "length t \<le> length s \<and> take (length t) s = t" by simp
next
  assume "length t \<le> length s \<and> take (length t) s = t"
  then show "startsWith s t" by (simp add: startsWith_def)
qed

lemma includes_str_iff:
  "includes_str s t \<longleftrightarrow> (\<exists>i. i + length t \<le> length s \<and> take (length t) (drop i s) = t)"
proof (induction s)
  case Nil
  then show ?case by auto
next
  case (Cons c cs)
  show ?case
  proof
    assume "includes_str (c # cs) t"
    then consider "startsWith (c # cs) t" | "includes_str cs t" by auto
    then show "\<exists>i. i + length t \<le> length (c # cs) \<and> take (length t) (drop i (c # cs)) = t"
    proof cases
      case 1
      then have "0 + length t \<le> length (c # cs) \<and> take (length t) (drop 0 (c # cs)) = t"
        by (simp add: startsWith_iff)
      then show ?thesis by blast
    next
      case 2
      with Cons.IH obtain i where "i + length t \<le> length cs" "take (length t) (drop i cs) = t"
        by blast
      then have "Suc i + length t \<le> length (c # cs) \<and> take (length t) (drop (Suc i) (c # cs)) = t"
        by simp
      then show ?thesis by blast
    qed
  next
    assume "\<exists>i. i + length t \<le> length (c # cs) \<and> take (length t) (drop i (c # cs)) = t"
    then obtain i where i: "i + length t \<le> length (c # cs)" "take (length t) (drop i (c # cs)) = t"
      by blast
    show "includes_str (c # cs) t"
    proof (cases i)
      case 0
      with i have "startsWith (c # cs) t" by (simp add: startsWith_iff)
      then show ?thesis by simp
    next
      case (Suc k)
      with i have "k + length t \<le> length cs \<and> take (length t) (drop k cs) = t" by simp
      with Cons.IH have "includes_str cs t" by blast
      then show ?thesis by simp
    qed
  qed
qed

lemma of_char_to_lower_char:
  "(of_char (to_lower_char c) :: nat) = (if is_upper c then of_char c + 32 else of_char c)"
  by (simp add: to_lower_char_def is_upper_def Let_def)

lemma to_lower_char_same_letter:
  "to_lower_char a = to_lower_char b \<longleftrightarrow> same_letter a b"
proof -
  have "to_lower_char a = to_lower_char b \<longleftrightarrow>
        (of_char (to_lower_char a) :: nat) = of_char (to_lower_char b)"
    by simp
  also have "\<dots> \<longleftrightarrow> same_letter a b"
    unfolding of_char_to_lower_char same_letter_def
    using of_char_eq_iff [of a b, where ?'a = nat]
    by (auto simp: is_upper_def)
  finally show ?thesis .
qed

lemma includes_toLowerCase_iff:
  "includes_str (toLowerCase s) (toLowerCase t) \<longleftrightarrow> ci_substring t s"
proof -
  have "\<And>i. i + length t \<le> length s \<Longrightarrow>
      (take (length t) (drop i (map to_lower_char s)) = map to_lower_char t)
      = (\<forall>j < length t. same_letter (s ! (i + j)) (t ! j))"
    by (auto simp: list_eq_iff_nth_eq to_lower_char_same_letter min_def)
  then show ?thesis
    unfolding includes_str_iff ci_substring_def toLowerCase_def by auto
qed

section \<open>Query: the filters on log records\<close>

lemma log_record_not_null: "is_log_record D r \<Longrightarrow> r \<noteq> JNull"
  by (auto simp: is_log_record_def)

lemma log_record_message:
  "is_log_record D r \<Longrightarrow> \<exists>m. field_of r ''message'' = Some (JStr m)"
  by (auto simp: is_log_record_def split: option.splits json.splits)

lemma log_record_time: "is_log_record D r \<Longrightarrow> \<exists>t. time_of D r = Some t"
  by (auto simp: is_log_record_def)

lemma filter_exact_eq:
  assumes "JNull \<notin> set logs"
  shows "filter_exact k c logs = Inr (filter (\<lambda>r. exact_match c (field_of r k)) logs)"
proof (cases c)
  case None
  then show ?thesis by (simp add: filter_exact_def exact_match_def)
next
  case (Some v)
  show ?thesis
  proof (cases "v = []")
    case True
    with Some show ?thesis by (simp add: filter_exact_def exact_match_def)
  next
    case False
    have "\<forall>log \<in> set logs. bind_e (get_prop log k) (\<lambda>x. Inr (x = Some (JStr v))) =
            Inr (exact_match c (field_of log k))"
      using assms Some False by (auto simp: get_prop_def exact_match_def)
    from filter_e_total [OF this] Some False show ?thesis by (simp add: filter_exact_def)
  qed
qed

lemma filter_message_eq:
  assumes "\<forall>r \<in> set logs. \<exists>m. field_of r ''message'' = Some (JStr m)"
  shows "filter_message c logs = Inr (filter (\<lambda>r. message_match c (field_of r ''message'')) logs)"
proof (cases c)
  case None
  then show ?thesis by (simp add: filter_message_def message_match_def)
next
  case (Some v)
  show ?thesis
  proof (cases "v = []")
    case True
    with Some show ?thesis by (simp add: filter_message_def message_match_def)
  next
    case False
    have "\<forall>log \<in> set logs.
            bind_e (get_prop log ''message'')
              (\<lambda>x. bind_e (toLowerCase_of x) (\<lambda>l. Inr (includes_str l (toLowerCase v)))) =
            Inr (message_match c (field_of log ''message''))"
    proof
      fix log assume "log \<in> set logs"
      with assms obtain m where m: "field_of log ''message'' = Some (JStr m)" by blast
      then have "log \<noteq> JNull" by auto
      with m Some False
      show "bind_e (get_prop log ''message'')
              (\<lambda>x. bind_e (toLowerCase_of x) (\<lambda>l. Inr (includes_str l (toLowerCase v)))) =
            Inr (message_match c (field_of log ''message''))"
        by (simp add: get_prop_def message_match_def includes_toLowerCase_iff)
    qed
    from filter_e_total [OF this] Some False show ?thesis
      by (simp add: filter_message_def Let_def)
  qed
qed

lemma date_ge_not_before: "date_ge d b = not_before b d"
  by (simp add: date_ge_def not_before_def)

lemma date_le_not_after: "date_le d b = not_after b d"
  by (simp add: date_le_def not_after_def)

lemma filter_start_eq:
  assumes "JNull \<notin> set logs"
  shows "filter_start D c logs = Inr (filter (\<lambda>r. start_match D c (time_of D r)) logs)"
proof (cases c)
  case None
  then show ?thesis by (simp add: filter_start_def start_match_def)
next
  case (Some v)
  show ?thesis
  proof (cases "v = [] \<or> D (JStr v) = None")
    case True
    with Some show ?thesis by (auto simp: filter_start_def start_match_def)
  next
    case False
    then obtain b where b: "D (JStr v) = Some b" and v: "v \<noteq> []" by auto
    have "\<forall>log \<in> set logs.
            bind_e (get_prop log ''timestamp'') (\<lambda>x. Inr (date_ge (newDate D x) b)) =
            Inr (start_match D c (time_of D log))"
      using assms Some b v
      by (auto simp: get_prop_def start_match_def time_of_def date_ge_not_before)
    from filter_e_total [OF this] Some b v show ?thesis by (simp add: filter_start_def)
  qed
qed

lemma filter_end_eq:
  assumes "JNull \<notin> set logs"
  shows "filter_end D c logs = Inr (filter (\<lambda>r. end_match D c (time_of D r)) logs)"
proof (cases c)
  case None
  then show ?thesis by (simp add: filter_end_def end_match_def)
next
  case (Some v)
  show ?thesis
  proof (cases "v = [] \<or> D (JStr v) = None")
    case True
    with Some show ?thesis by (auto simp: filter_end_def end_match_def)
  next
    case False
    then obtain b where b: "D (JStr v) = Some b" and v: "v \<noteq> []" by auto
    have "\<forall>log \<in> set logs.
            bind_e (get_prop log ''timestamp'') (\<lambda>x. Inr (date_le (newDate D x) b)) =
            Inr (end_match D c (time_of D log))"
      using assms Some b v
      by (auto simp: get_prop_def end_match_def time_of_def date_le_not_after)
    from filter_e_total [OF this] Some b v show ?thesis by (simp add: filter_end_def)
  qed
qed

text \<open>On log records the eight filters compute the records that satisfy the criteria.\<close>

lemma filters_eq:
  assumes "\<forall>r \<in> set logs. is_log_record D r"
  shows "bind_e (filter_exact ''level'' (level q) logs) (\<lambda>l1.
     bind_e (filter_message (message q) l1) (\<lambda>l2.
     bind_e (filter_exact ''resourceId'' (resourceId q) l2) (\<lambda>l3.
     bind_e (filter_start D (timestamp_start q) l3) (\<lambda>l4.
     bind_e (filter_end D (timestamp_end q) l4) (\<lambda>l5.
     bind_e (filter_exact ''traceId'' (traceId q) l5) (\<lambda>l6.
     bind_e (filter_exact ''spanId'' (spanId q) l6) (\<lambda>l7.
     bind_e (filter_exact ''commit'' (commit q) l7) (\<lambda>l8. k l8)))))))) =
     k (filter (satisfies D q) logs)"
proof -
  have nn: "\<And>P. JNull \<notin> set (filter P logs)"
    using assms log_record_not_null by auto
  have nn0: "JNull \<notin> set logs"
    using assms log_record_not_null by auto
  have msg: "\<And>P. \<forall>r \<in> set (filter P logs). \<exists>m. field_of r ''message'' = Some (JStr m)"
    using assms log_record_message by auto
  have sat: "satisfies D q = (\<lambda>r. ((((((exact_match (level q) (field_of r ''level'')
      \<and> message_match (message q) (field_of r ''message''))
      \<and> exact_match (resourceId q) (field_of r ''resourceId''))
      \<and> start_match D (timestamp_start q) (time_of D r))
      \<and> end_match D (timestamp_end q) (time_of D r))
      \<and> exact_match (traceId q) (field_of r ''traceId''))
      \<and> exact_match (spanId q) (field_of r ''spanId''))
      \<and> exact_match (commit q) (field_of r ''commit''))"
    by (auto simp: satisfies_def fun_eq_iff)
  show ?thesis
    unfolding sat
    by (simp only: filter_exact_eq [OF nn0] filter_exact_eq [OF nn] filter_message_eq [OF msg]
        filter_start_eq [OF nn] filter_end_eq [OF nn] bind_e_Inr filter_filter)
qed

section \<open>Query: sorting\<close>

lemma compare_desc_le:
  assumes "time_of D a \<noteq> None" and "time_of D b \<noteq> None"
  shows "(compare_desc D a b \<le> 0) = (- timestamp_ms D a \<le> - timestamp_ms D b)"
  using assms by (auto simp: compare_desc_def timestamp_ms_def time_of_def)

lemma insert_by_insort_key:
  assumes "time_of D x \<noteq> None" and "\<forall>y \<in> set ys. time_of D y \<noteq> None"
  shows "insert_by (compare_desc D) x ys = insort_key (\<lambda>r. - timestamp_ms D r) x ys"
  using assms by (induction ys) (simp_all add: compare_desc_le)

lemma sort_by_sort_key:
  assumes "\<forall>y \<in> set xs. time_of D y \<noteq> None"
  shows "sort_by (compare_desc D) xs = sort_key (\<lambda>r. - timestamp_ms D r) xs"
  using assms
proof (induction xs)
  case Nil
  then show ?case by (simp add: sort_by_def)
next
  case (Cons x xs)
  then have ih: "sort_by (compare_desc D) xs = sort_key (\<lambda>r. - timestamp_ms D r) xs" by simp
  have "sort_by (compare_desc D) (x # xs) = insert_by (compare_desc D) x (sort_by (compare_desc D) xs)"
    by (simp add: sort_by_def)
  also have "\<dots> = insort_key (\<lambda>r. - timestamp_ms D r) x (sort_key (\<lambda>r. - timestamp_ms D r) xs)"
    unfolding ih using Cons.prems by (intro insert_by_insort_key) simp_all
  finally show ?case by simp
qed

lemma query_try_log_records:
  assumes "readLogs f = JArr logs" and "\<forall>r \<in> set logs. is_log_record D r"
  shows "query_try D q f =
           Inr (sort_key (\<lambda>r. - timestamp_ms D r) (filter (satisfies D q) logs))"
proof -
  let ?res = "filter (satisfies D q) logs"
  have nn: "JNull \<notin> set ?res" using assms(2) log_record_not_null by auto
  have tm: "\<forall>y \<in> set ?res. time_of D y \<noteq> None" using assms(2) log_record_time by auto
  have "query_try D q f = sort_logs D ?res"
    unfolding query_try_def assms(1) spread_array.simps bind_e_Inr
    by (rule filters_eq [OF assms(2)])
  also have "\<dots> = Inr (sort_by (compare_desc D) ?res)"
    using nn by (simp add: sort_logs_def)
  finally show ?thesis by (simp only: sort_by_sort_key [OF tm])
qed

lemma sorted_desc_sort_key:
  "sorted_wrt (\<lambda>a b. timestamp_ms D a \<ge> timestamp_ms D b)
     (sort_key (\<lambda>r. - timestamp_ms D r) xs)"
proof -
  have "sorted (map (\<lambda>r. - timestamp_ms D r) (sort_key (\<lambda>r. - timestamp_ms D r) xs))"
    by (rule sorted_sort_key)
  then show ?thesis by (simp add: sorted_map)
qed

lemma filter_three:
  assumes "mset logs = {#r1, r2, r3#}" and "P a" and "filter_mset P {#r1, r2, r3#} = {#a#}"
  shows "filter P logs = [a]"
proof -
  have "mset (filter P logs) = {#a#}" using assms by simp
  then show ?thesis by (simp only: mset_single_iff)
qed

lemma sort_three:
  assumes "mset logs = {#r1, r2, r3#}"
    and "timestamp_ms D r1 < timestamp_ms D r2" and "timestamp_ms D r2 < timestamp_ms D r3"
  shows "sort_key (\<lambda>r. - timestamp_ms D r) logs = [r3, r2, r1]"
proof (rule properties_for_sort_key)
  show "mset [r3, r2, r1] = mset logs" using assms(1) by simp
  show "sorted (map (\<lambda>r. - timestamp_ms D r) [r3, r2, r1])" using assms(2,3) by simp
  fix k assume "k \<in> set [r3, r2, r1]"
  then consider "k = r1" | "k = r2" | "k = r3" by auto
  then show "filter (\<lambda>x. - timestamp_ms D k = - timestamp_ms D x) [r3, r2, r1] =
             filter (\<lambda>x. - timestamp_ms D k = - timestamp_ms D x) logs"
  proof cases
    case 1
    have "filter (\<lambda>x. - timestamp_ms D k = - timestamp_ms D x) logs = [r1]"
      using assms by (intro filter_three [of logs r1 r2 r3]) (simp_all add: 1)
    then show ?thesis using assms by (simp add: 1)
  next
    case 2
    have "filter (\<lambda>x. - timestamp_ms D k = - timestamp_ms D x) logs = [r2]"
      using assms by (intro filter_three [of logs r1 r2 r3]) (simp_all add: 2)
    then show ?thesis using assms by (simp add: 2)
  next
    case 3
    have "filter (\<lambda>x. - timestamp_ms D k = - timestamp_ms D x) logs = [r3]"
      using assms by (intro filter_three [of logs r1 r2 r3]) (simp_all add: 3)
    then show ?thesis using assms by (simp add: 3)
  qed
qed

lemma satisfies_no_filter [simp]: "satisfies D no_filter r"
  by (simp add: satisfies_def no_filter_def exact_match_def message_match_def
      start_match_def end_match_def)

section \<open>Query: order of the result\<close>

text \<open>
  Claim C5. On a collection of log records a query is answered \<open>200\<close>, whatever the criteria, with
  records in descending order of their timestamps. A collection that holds three records with
  timestamps \<open>T1 < T2 < T3\<close>, in any order, is returned without criteria as the records of \<open>T3\<close>,
  \<open>T2\<close>, \<open>T1\<close>.
\<close>

theorem query_sorted_descending:
  "(readLogs f = JArr logs \<and> (\<forall>r \<in> set logs. is_log_record D r) \<longrightarrow>
      (\<exists>res. query D q f = Status200 res
         \<and> sorted_wrt (\<lambda>a b. timestamp_ms D a \<ge> timestamp_ms D b) res))
   \<and> (readLogs f = JArr logs \<and> mset logs = {#r1, r2, r3#}
        \<and> is_log_record D r1 \<and> is_log_record D r2 \<and> is_log_record D r3
        \<and> timestamp_ms D r1 < timestamp_ms D r2 \<and> timestamp_ms D r2 < timestamp_ms D r3 \<longrightarrow>
      query D no_filter f = Status200 [r3, r2, r1])"
proof (intro conjI impI)
  assume a: "readLogs f = JArr logs \<and> (\<forall>r \<in> set logs. is_log_record D r)"
  then have "query D q f =
      Status200 (sort_key (\<lambda>r. - timestamp_ms D r) (filter (satisfies D q) logs))"
    by (simp add: query_def query_try_log_records)
  then show "\<exists>res. query D q f = Status200 res
         \<and> sorted_wrt (\<lambda>a b. timestamp_ms D a \<ge> timestamp_ms D b) res"
    using sorted_desc_sort_key by blast
next
  assume a: "readLogs f = JArr logs \<and> mset logs = {#r1, r2, r3#}
        \<and> is_log_record D r1 \<and> is_log_record D r2 \<and> is_log_record D r3
        \<and> timestamp_ms D r1 < timestamp_ms D r2 \<and> timestamp_ms D r2 < timestamp_ms D r3"
  then have "set logs = set_mset {#r1, r2, r3#}" by (metis set_mset_mset)
  with a have recs: "\<forall>r \<in> set logs. is_log_record D r" by simp
  from a have rl: "readLogs f = JArr logs" by simp
  have "query D no_filter f = Status200 (sort_key (\<lambda>r. - timestamp_ms D r) logs)"
    by (simp add: query_def query_try_log_records [OF rl recs])
  with a show "query D no_filter f = Status200 [r3, r2, r1]"
    by (simp add: sort_three [of logs r1 r2 r3 D])
qed

lemma rec_log_record: "is_log_record sample_D (stored_at ''2024-01-01T10:00:00.000Z'')"
  "is_log_record sample_D (stored_at ''2024-01-01T11:00:00.000Z'')"
  "is_log_record sample_D (stored_at ''2024-01-01T12:00:00.000Z'')"
  by (simp_all add: is_log_record_def stored_at_def sample_entry_def time_of_def newDate_def
      sample_dates_def)

lemma rec_times:
  "timestamp_ms sample_D rec10 = 1704103200000"
  "timestamp_ms sample_D rec11 = 1704106800000"
  "timestamp_ms sample_D rec12 = 1704110400000"
  by (simp_all add: rec10_def rec11_def rec12_def timestamp_ms_def stored_at_def sample_entry_def
      time_of_def newDate_def sample_dates_def)

lemma sample_file_logs: "readLogs sample_file = JArr [rec11, rec12, rec10]"
  by (simp add: sample_file_def)

lemma sample_file_records: "\<forall>r \<in> set [rec11, rec12, rec10]. is_log_record sample_D r"
  by (simp add: rec10_def rec11_def rec12_def rec_log_record)

theorem query_sorted_descending_witness:
  "readLogs sample_file = JArr [rec11, rec12, rec10]
   \<and> is_log_record sample_D rec10 \<and> is_log_record sample_D rec11 \<and> is_log_record sample_D rec12
   \<and> mset [rec11, rec12, rec10] = {#rec10, rec11, rec12#}
   \<and> timestamp_ms sample_D rec10 < timestamp_ms sample_D rec11
   \<and> timestamp_ms sample_D rec11 < timestamp_ms sample_D rec12
   \<and> (\<exists>res. query sample_D error_database sample_file = Status200 res
         \<and> sorted_wrt (\<lambda>a b. timestamp_ms sample_D a \<ge> timestamp_ms sample_D b) res)
   \<and> query sample_D no_filter sample_file = Status200 [rec12, rec11, rec10]"
proof -
  note t = query_sorted_descending [of sample_file "[rec11, rec12, rec10]" sample_D error_database
      rec10 rec11 rec12]
  have m: "mset [rec11, rec12, rec10] = {#rec10, rec11, rec12#}" by simp
  have lt: "timestamp_ms sample_D rec10 < timestamp_ms sample_D rec11"
    "timestamp_ms sample_D rec11 < timestamp_ms sample_D rec12"
    by (simp_all add: rec_times)
  have r: "is_log_record sample_D rec10" "is_log_record sample_D rec11"
    "is_log_record sample_D rec12"
    using sample_file_records by simp_all
  from t sample_file_logs sample_file_records
  have a: "\<exists>res. query sample_D error_database sample_file = Status200 res
         \<and> sorted_wrt (\<lambda>a b. timestamp_ms sample_D a \<ge> timestamp_ms sample_D b) res"
    by blast
  from t sample_file_logs m lt r
  have b: "query sample_D no_filter sample_file = Status200 [rec12, rec11, rec10]"
    by blast
  show ?thesis by (intro conjI sample_file_logs r m lt a b)
qed

section \<open>Query: conjunction of the criteria\<close>

lemma exact_match_supplied: "s \<noteq> [] \<Longrightarrow> exact_match (Some s) v = (v = Some (JStr s))"
  by (simp add: exact_match_def)




section \<open>Query: the message criterion\<close>







section \<open>Query: the timestamp bounds\<close>










section \<open>Collections written by the server\<close>

lemma map_of_assign:
  assumes "distinct (map fst src)"
  shows "map_of (assign src dst) k = (case map_of src k of None \<Rightarrow> map_of dst k | Some v \<Rightarrow> Some v)"
  using assms
proof (induction src arbitrary: dst)
  case Nil
  then show ?case by (simp add: assign_def)
next
  case (Cons a src)
  obtain x y where a: "a = (x, y)" by (cases a)
  from Cons.prems a have d: "distinct (map fst src)" and nx: "x \<notin> fst ` set src" by simp_all
  from nx have none: "map_of src x = None" by (simp add: map_of_eq_None_iff)
  have "assign (a # src) dst = assign src (AList.update x y dst)"
    by (simp add: assign_def a)
  with Cons.IH [OF d, of "AList.update x y dst"] none show ?case
    by (auto simp: a update_conv' split: option.splits)
qed

lemma field_of_new_record:
  assumes "distinct (map fst kvs)" and "k \<noteq> ''ingestedAt''" and "k \<noteq> ''timestamp''"
    and "map_of kvs k = Some v"
  shows "field_of (new_record D ISO e (JObj kvs)) k = Some v"
  using assms by (simp add: new_record_def make_newLog_def update_conv' map_of_assign)

lemma timestamp_of_new_record:
  assumes "newDate D (field_of logEntry ''timestamp'') = Some t"
  shows "field_of (new_record D ISO e logEntry) ''timestamp'' = Some (JStr (ISO t))"
  using assms by (simp add: new_record_def make_newLog_def update_conv')

lemma valid_is_object: "validateLogEntry D logEntry = Inr Valid \<Longrightarrow> \<exists>kvs. logEntry = JObj kvs"
  by (cases logEntry) (auto simp: validateLogEntry_def Let_def required_def split: if_splits)

text \<open>
  Provided that \<^verbatim>\<open>new Date\<close> reads back what \<^verbatim>\<open>toISOString\<close> writes, a collection of log records
  stays one when the record of a request with a string as message is added.
\<close>

lemma ingest_stores_log_records:
  assumes roundtrip: "\<And>t. D (JStr (ISO t)) = Some t"
    and old: "readLogs (db s) = JArr old" "\<forall>x \<in> set old. is_log_record D x"
    and body: "logEntry = JObj kvs" "distinct (map fst kvs)" "map_of kvs ''message'' = Some (JStr m)"
    and ok: "fst (ingest D ISO e logEntry s) = Status201 r"
  shows "\<exists>logs. readLogs (db (snd (ingest D ISO e logEntry s))) = JArr logs
           \<and> (\<forall>x \<in> set logs. is_log_record D x)"
proof -
  from ingest_201 [OF ok]
  have v: "validateLogEntry D logEntry = Inr Valid" and w: "write_result e = WriteOk"
    and r: "r = new_record D ISO e logEntry"
    by simp_all
  from valid_timestamp [OF v] obtain t
    where t: "newDate D (field_of logEntry ''timestamp'') = Some t" by blast
  have "field_of r ''message'' = Some (JStr m)"
    unfolding r body(1) using body(2,3) by (intro field_of_new_record) simp_all
  moreover have "time_of D r = Some t"
    unfolding r by (simp add: time_of_def timestamp_of_new_record [OF t] newDate_def roundtrip)
  ultimately have rec: "is_log_record D r" by (simp add: is_log_record_def)
  have "readLogs (db (snd (ingest D ISO e logEntry s))) = JArr (take 1000 (r # old))"
    unfolding ingest_valid [OF v] by (simp add: old(1) w r)
  moreover have "\<forall>x \<in> set (take 1000 (r # old)). is_log_record D x"
    using rec old(2) by (auto dest: in_set_takeD)
  ultimately show ?thesis by blast
qed

text \<open>
  Validation asks of the message only that it be truthy. A request with a number as message
  is accepted, and once its record is stored a query with a message criterion is answered
  \<open>500\<close>: \<^verbatim>\<open>log.message.toLowerCase\<close> is not a function.
\<close>

lemma number_message_accepted:
  "validateLogEntry sample_D (JObj number_message_entry) = Inr Valid"
  by code_simp

lemma number_message_query_fails:
  "query sample_D (no_filter\<lparr>message := Some ''database''\<rparr>) number_message_file = Status500"
  by code_simp

lemma number_message_query_unfiltered:
  "query sample_D no_filter number_message_file = Status200 [JObj number_message_entry]"
  by code_simp

text \<open>
  The scenario of the test suites: the sample request is ingested into an empty store, and the
  query with level \<^verbatim>\<open>error\<close> and message \<^verbatim>\<open>database\<close> returns exactly its record.
\<close>

lemma ingest_then_query:
  "query sample_D error_database
     (db (snd (ingest sample_D sample_ISO sample_env (JObj sample_entry) sample_server))) =
   Status200 [new_record sample_D sample_ISO sample_env (JObj sample_entry)]"
proof -
  let ?r = "new_record sample_D sample_ISO sample_env (JObj sample_entry)"
  have d: "distinct (map fst sample_entry)" by (simp add: sample_entry_def)
  have f: "db (snd (ingest sample_D sample_ISO sample_env (JObj sample_entry) sample_server)) =
      FileJson (JObj [(''logs'', JArr [?r])])"
    by (simp add: ingest_valid [OF sample_valid] sample_read sample_write)
  have lv: "field_of ?r ''level'' = Some (JStr ''error'')"
    using d by (intro field_of_new_record) (simp_all add: sample_entry_def)
  have ms: "field_of ?r ''message'' = Some (JStr ''Database connection failed'')"
    using d by (intro field_of_new_record) (simp_all add: sample_entry_def)
  have "newDate sample_D (field_of (JObj sample_entry) ''timestamp'') = Some 1704103200000"
    by (simp add: sample_entry_def newDate_def sample_dates_def)
  from timestamp_of_new_record [OF this]
  have tm: "time_of sample_D ?r = Some 1704103200000"
    by (simp add: time_of_def newDate_def sample_ISO_def sample_dates_def)
  have rec: "\<forall>x \<in> set [?r]. is_log_record sample_D x"
    by (simp add: is_log_record_def ms tm)
  have ci: "ci_substring ''database'' ''Database connection failed''"
    unfolding includes_toLowerCase_iff [symmetric] by code_simp
  have sat: "satisfies sample_D error_database ?r"
    by (simp add: satisfies_def error_database_def no_filter_def exact_match_def
        message_match_def start_match_def end_match_def lv ms ci)
  have "query_try sample_D error_database (FileJson (JObj [(''logs'', JArr [?r])])) = Inr [?r]"
    using query_try_log_records [OF readLogs_container rec, of error_database] sat by simp
  then show ?thesis by (simp add: f query_def)
qed

end
